theory Spec2Isabelle
  imports Main
begin

section \<open>Upload filter of the knowledge-base front end\<close>

text \<open>
  \<^verbatim>\<open>processFiles\<close> of \<^verbatim>\<open>components/KnowledgeBase/DocumentUpload.tsx\<close>. A browser
  \<^verbatim>\<open>File\<close> is read through its \<^verbatim>\<open>name\<close> and its \<^verbatim>\<open>type\<close> (the MIME type) only.
  What the component does to the outside (the alert, the React state setters, the
  interval timer, the call of \<^verbatim>\<open>uploadDocument\<close>, the \<^verbatim>\<open>onUploadSuccess\<close> callback) is
  recorded, in program order, as a list of effects.
\<close>

record web_file =
  file_name :: string
  file_type :: string

text \<open>The constant \<^verbatim>\<open>supportedTypes\<close> of \<^verbatim>\<open>processFiles\<close>.\<close>

definition supportedTypes :: "string list" where
  "supportedTypes =
     [''application/pdf'',
      ''text/plain'',
      ''text/markdown'',
      ''application/vnd.openxmlformats-officedocument.wordprocessingml.document'',
      ''application/msword'',
      ''text/csv'',
      ''application/json'']"

text \<open>
  The effects: the alert; \<^verbatim>\<open>setUploadingFiles\<close> adding the valid files; \<^verbatim>\<open>setProgress\<close>
  setting the progress of the named files to 0; the start of the progress timer of a
  file; the call \<^verbatim>\<open>uploadDocument(knowledgeBaseId, file)\<close>; the clearing of the timer;
  \<^verbatim>\<open>setProgress\<close> of one file; the delayed removal of a file from the queue;
  \<^verbatim>\<open>console.error\<close> and \<^verbatim>\<open>setErrors\<close> for a file whose upload failed; the callback
  \<^verbatim>\<open>onUploadSuccess\<close>.
\<close>

datatype upload_effect =
    Alert
  | SetUploadingFiles "web_file list"
  | InitProgress "string list"
  | SetInterval string
  | UploadDocument string web_file
  | ClearInterval string
  | SetProgress string nat
  | ScheduleRemoval string
  | ConsoleError string
  | SetErrors string
  | OnUploadSuccess

text \<open>
  \<^verbatim>\<open>uploadSingleFile\<close>: the timer is started, \<^verbatim>\<open>uploadDocument(knowledgeBaseId, file)\<close> is
  awaited; when it resolves (\<open>ok\<close>) the timer is cleared, the progress set to 100 and the
  removal from the queue scheduled; when it rejects the error is rethrown at once and
  \<^verbatim>\<open>processFiles\<close> logs it and records it under the file's name.
\<close>

definition uploadSingleFile :: "string \<Rightarrow> bool \<Rightarrow> web_file \<Rightarrow> upload_effect list" where
  "uploadSingleFile knowledgeBaseId ok f =
     [SetInterval (file_name f), UploadDocument knowledgeBaseId f] @
     (if ok then [ClearInterval (file_name f), SetProgress (file_name f) 100,
                  ScheduleRemoval (file_name f)]
      else [ConsoleError (file_name f), SetErrors (file_name f)])"

text \<open>
  The \<^verbatim>\<open>for (const file of validFiles)\<close> loop. Whether the \<open>k\<close>-th call of
  \<^verbatim>\<open>uploadDocument\<close> resolves is given by \<open>resolves k\<close>.
\<close>

fun upload_loop :: "string \<Rightarrow> (nat \<Rightarrow> bool) \<Rightarrow> nat \<Rightarrow> web_file list \<Rightarrow> upload_effect list" where
  "upload_loop knowledgeBaseId resolves k [] = []"
| "upload_loop knowledgeBaseId resolves k (f # fs) =
     uploadSingleFile knowledgeBaseId (resolves k) f @
     upload_loop knowledgeBaseId resolves (Suc k) fs"

text \<open>
  \<^verbatim>\<open>processFiles\<close>: the files are filtered by their type; the alert is raised when one was
  dropped; with no valid file the function returns; otherwise the valid files are queued,
  uploaded one after the other, and the parent component is notified.
\<close>

definition processFiles :: "string \<Rightarrow> (nat \<Rightarrow> bool) \<Rightarrow> web_file list \<Rightarrow> upload_effect list" where
  "processFiles knowledgeBaseId resolves files =
     (let validFiles = filter (\<lambda>f. file_type f \<in> set supportedTypes) files in
        (if length validFiles \<noteq> length files then [Alert] else []) @
        (if length validFiles = 0 then []
         else [SetUploadingFiles validFiles, InitProgress (map file_name validFiles)] @
              upload_loop knowledgeBaseId resolves 0 validFiles @
              [OnUploadSuccess]))"

text \<open>The files handed to \<^verbatim>\<open>uploadDocument\<close>, in call order.\<close>

fun uploaded :: "upload_effect list \<Rightarrow> web_file list" where
  "uploaded [] = []"
| "uploaded (UploadDocument kb f # es) = f # uploaded es"
| "uploaded (e # es) = uploaded es"

section \<open>Server-sent events of the conversation service\<close>

text \<open>
  \<^verbatim>\<open>handleStreamResponse\<close> of \<^verbatim>\<open>services/knowledgeBaseService.ts\<close>. JavaScript strings are modelled
  as \<^typ>\<open>string\<close>; the only characters the function looks at are the ASCII ones of
  \<^verbatim>\<open>"\n\n"\<close> and \<^verbatim>\<open>"data: "\<close>. The value \<^verbatim>\<open>JSON.parse\<close> returns is a \<open>json\<close>; a property
  that is absent reads as \<^verbatim>\<open>undefined\<close>, here \<open>None\<close>. Numbers are not inspected by the
  function and stand as integers.
\<close>

datatype json =
    JNull
  | JBool bool
  | JNum int
  | JStr string
  | JArr "json list"
  | JObj "(string \<times> json) list"

text \<open>
  Reading property \<open>k\<close> of a value that is not \<^verbatim>\<open>null\<close>: an object has the properties
  it was parsed with (each key once), and none of the keys the function reads exists on a
  boolean, a number, a string or an array.
\<close>

fun field :: "json \<Rightarrow> string \<Rightarrow> json option" where
  "field (JObj kvs) k = map_of kvs k"
| "field j k = None"

text \<open>
  The calls the function makes on its callbacks, and the release of the reader's lock in
  the \<^verbatim>\<open>finally\<close> block. \<open>OnData\<close> carries the content, the flag \<^verbatim>\<open>isFirstMessage\<close> and
  the conversation id, message id and sources of the info object. The callbacks are
  taken to return normally; what the function writes to the console is not recorded.
\<close>

datatype callback =
    OnData "json option" bool "json option" "json option" "json option"
  | OnSources "json option"
  | OnError "json option"
  | OnCompleted
  | ReleaseLock

text \<open>\<^verbatim>\<open>s.startsWith(p)\<close>.\<close>

definition startsWith :: "string \<Rightarrow> string \<Rightarrow> bool" where
  "startsWith s p = (take (length p) s = p)"

text \<open>
  \<^verbatim>\<open>buffer.split('\n\n')\<close>: the pieces between the leftmost, non-overlapping occurrences
  of two line feeds; \<open>acc\<close> is the piece being read.
\<close>

fun split_nn :: "string \<Rightarrow> string \<Rightarrow> string list" where
  "split_nn acc (a # b # cs) =
     (if a = CHR 0x0A \<and> b = CHR 0x0A then acc # split_nn [] cs
      else split_nn (acc @ [a]) (b # cs))"
| "split_nn acc [a] = [acc @ [a]]"
| "split_nn acc [] = [acc]"

text \<open>\<^verbatim>\<open>lines.pop()\<close>: the last element, removed; \<^verbatim>\<open>undefined\<close> on an empty array.\<close>

definition pop :: "'a list \<Rightarrow> 'a list \<times> 'a option" where
  "pop xs = (if xs = [] then ([], None) else (butlast xs, Some (last xs)))"

text \<open>
  The body of \<^verbatim>\<open>for (const line of lines)\<close> for one line: the callbacks made, and
  whether the function returns (\<open>True\<close>) or goes on to the next line. \<open>parse\<close> is
  \<^verbatim>\<open>JSON.parse\<close>, \<open>None\<close> when it throws. Reading \<^verbatim>\<open>jsonData.type\<close> of \<^verbatim>\<open>null\<close>
  throws as well, inside the same \<^verbatim>\<open>try\<close>. \<open>has_onSources\<close> says whether the optional
  callback \<^verbatim>\<open>onSources\<close> was passed.
\<close>

definition handle_line :: "(string \<Rightarrow> json option) \<Rightarrow> bool \<Rightarrow> string \<Rightarrow> callback list \<times> bool" where
  "handle_line parse has_onSources line =
     (if startsWith line ''data: '' then
        (case parse (drop 6 line) of
           None \<Rightarrow> ([OnError (Some (JStr ''Error parsing stream data''))], True)
         | Some JNull \<Rightarrow> ([OnError (Some (JStr ''Error parsing stream data''))], True)
         | Some jsonData \<Rightarrow>
             if field jsonData ''type'' = Some (JStr ''chunk'') then
               ([OnData (field jsonData ''content'') False
                   (field jsonData ''conversation_id'')
                   (field jsonData ''message_id'')
                   (field jsonData ''sources'')], False)
             else if field jsonData ''type'' = Some (JStr ''done'') then
               (if has_onSources then [OnSources (field jsonData ''sources'')] else [], False)
             else if field jsonData ''type'' = Some (JStr ''error'') then
               ([OnError (field jsonData ''error'')], True)
             else ([], False))
      else ([], False))"

text \<open>
  The \<^verbatim>\<open>for\<close> loop over the lines of one chunk: it stops at the first line that makes the
  function return.
\<close>

fun process_lines :: "(string \<Rightarrow> json option) \<Rightarrow> bool \<Rightarrow> string list \<Rightarrow> callback list \<times> bool" where
  "process_lines parse has_onSources [] = ([], False)"
| "process_lines parse has_onSources (line # lines) =
     (case handle_line parse has_onSources line of
        (cs, True) \<Rightarrow> (cs, True)
      | (cs, False) \<Rightarrow>
          (case process_lines parse has_onSources lines of
             (cs', stop) \<Rightarrow> (cs @ cs', stop)))"

text \<open>
  One turn of \<^verbatim>\<open>while (true)\<close> per element: \<open>Aborted\<close> when \<^verbatim>\<open>signal.aborted\<close> holds at
  the top of the turn, \<open>Rejects name message\<close> when \<^verbatim>\<open>reader.read()\<close> rejects with an
  error of that name and message, \<open>Value text\<close> when it delivers a chunk that decodes
  to \<open>text\<close>. After the last element the reader reports \<^verbatim>\<open>done\<close>.
\<close>

datatype read = Value string | Aborted | Rejects string string

fun read_loop :: "(string \<Rightarrow> json option) \<Rightarrow> bool \<Rightarrow> string \<Rightarrow> read list \<Rightarrow> callback list" where
  "read_loop parse has_onSources buffer [] = [OnCompleted, ReleaseLock]"
| "read_loop parse has_onSources buffer (Aborted # rs) =
     [OnError (Some (JStr ''Operation aborted'')), ReleaseLock]"
| "read_loop parse has_onSources buffer (Rejects name message # rs) =
     (if name \<noteq> ''AbortError''
      then [OnError (Some (JStr (if message = [] then ''Stream reading failed'' else message)))]
      else []) @ [ReleaseLock]"
| "read_loop parse has_onSources buffer (Value text # rs) =
     (case pop (split_nn [] (buffer @ text)) of
        (lines, popped) \<Rightarrow>
          (case process_lines parse has_onSources lines of
             (cs, True) \<Rightarrow> cs @ [ReleaseLock]
           | (cs, False) \<Rightarrow>
               cs @ read_loop parse has_onSources
                      (case popped of None \<Rightarrow> [] | Some b \<Rightarrow> b) rs))"

text \<open>
  The function itself: a response without a body makes it throw before anything is
  read (\<open>Inl\<close>); otherwise the loop starts on an empty buffer.
\<close>

definition handleStreamResponse ::
  "(string \<Rightarrow> json option) \<Rightarrow> bool \<Rightarrow> read list option \<Rightarrow> string + callback list" where
  "handleStreamResponse parse has_onSources body =
     (case body of
        None \<Rightarrow> Inl ''Response body is null''
      | Some reads \<Rightarrow> Inr (read_loop parse has_onSources [] reads))"

text \<open>
  The lines the loop hands to the \<^verbatim>\<open>for\<close> loop over the whole stream, in order: the
  complete lines of every chunk read before the stream ends, is aborted or fails. What
  follows the last \<^verbatim>\<open>"\n\n"\<close> stays in the buffer and is never handed over.
\<close>

fun delivered :: "string \<Rightarrow> read list \<Rightarrow> string list" where
  "delivered buffer (Value text # rs) =
     (case pop (split_nn [] (buffer @ text)) of
        (lines, popped) \<Rightarrow> lines @ delivered (case popped of None \<Rightarrow> [] | Some b \<Rightarrow> b) rs)"
| "delivered buffer rs = []"

text \<open>
  How the loop ends when no line makes the function return: \<^verbatim>\<open>onCompleted\<close> after
  \<^verbatim>\<open>done\<close>, \<^verbatim>\<open>onError\<close> from the outer \<^verbatim>\<open>catch\<close> otherwise (not for an error named
  \<^verbatim>\<open>AbortError\<close>), and the \<^verbatim>\<open>finally\<close> block in every case.
\<close>

fun ending :: "read list \<Rightarrow> callback list" where
  "ending [] = [OnCompleted, ReleaseLock]"
| "ending (Value text # rs) = ending rs"
| "ending (Aborted # rs) = [OnError (Some (JStr ''Operation aborted'')), ReleaseLock]"
| "ending (Rejects name message # rs) =
     (if name \<noteq> ''AbortError''
      then [OnError (Some (JStr (if message = [] then ''Stream reading failed'' else message)))]
      else []) @ [ReleaseLock]"

text \<open>
  A line that ends the processing: a \<^verbatim>\<open>data: \<close> line whose payload does not parse, parses
  to \<^verbatim>\<open>null\<close>, or parses to an event of type \<^verbatim>\<open>error\<close>.
\<close>

definition fatal_line :: "(string \<Rightarrow> json option) \<Rightarrow> string \<Rightarrow> bool" where
  "fatal_line parse line =
     (startsWith line ''data: '' \<and>
      (case parse (drop 6 line) of
         None \<Rightarrow> True
       | Some j \<Rightarrow> j = JNull \<or> field j ''type'' = Some (JStr ''error'')))"

text \<open>A parser for concrete runs: it knows one error event and one chunk event.\<close>

definition example_parse :: "string \<Rightarrow> json option" where
  "example_parse s =
     (if s = ''E'' then Some (JObj [(''type'', JStr ''error''), (''error'', JStr ''boom'')])
      else if s = ''C'' then Some (JObj [(''type'', JStr ''chunk''), (''content'', JStr ''hi'')])
      else None)"

section \<open>Chunker\<close>

text \<open>
  The ingestion back end (the chunking service, the caches, the task registry and the
  workers that the project layout lists under \<^verbatim>\<open>app/services\<close> and \<^verbatim>\<open>app/task\<close>) is not
  among the sources; the front end only declares the shape of its data
  (\<^verbatim>\<open>ChunkingConfig\<close>, \<^verbatim>\<open>Segment\<close>). The definitions of this and the following sections are
  therefore written from the specification, each marked as such.
\<close>

text \<open>Modelled from the spec: the strategy enumeration of \<^verbatim>\<open>ChunkingConfig\<close> (section 3),
  whose implementation is missing.\<close>

datatype strategy =
  Paragraph | Token | Character | Markdown | Sentence | Newline | Double_newline | Chinese
  | Code | Custom

text \<open>Modelled from the spec: \<^verbatim>\<open>ChunkingConfig\<close> (section 3). Size and overlap are integers
  as a caller may send them; the invariants are checked by \<open>valid_config\<close>.\<close>

record ChunkingConfig =
  strategy :: strategy
  chunk_size :: int
  chunk_overlap :: int
  custom_separators :: "string list"

text \<open>Modelled from the spec: the error of the Chunker's contract (sections 4.1 and 7).\<close>

datatype chunk_error = ConfigError

text \<open>Modelled from the spec: \<^verbatim>\<open>Segment\<close> (section 3) as the Chunker produces it. The
  identifiers \<^verbatim>\<open>id\<close> and \<^verbatim>\<open>document_id\<close> are given by the metadata store when the segment
  is written and are not part of the Chunker's output.\<close>

record 'h segment =
  position :: nat
  content :: string
  token_count :: nat
  content_hash :: 'h

text \<open>Modelled from the spec: what the Chunker takes from outside and the specification
  leaves open: the separator lists of the strategies it does not enumerate, the token
  count of a text under a strategy (the model's tokenizer for \<open>Token\<close>, the estimation
  function for the others), the text of the last \<open>k\<close> tokens of a text, and the content
  hash.\<close>

record 'h chunk_env =
  separator_table :: "strategy \<Rightarrow> string list"
  tokens :: "strategy \<Rightarrow> string \<Rightarrow> nat"
  last_tokens :: "strategy \<Rightarrow> nat \<Rightarrow> string \<Rightarrow> string"
  hash :: "string \<Rightarrow> 'h"

text \<open>Modelled from the spec: the invariants of \<^verbatim>\<open>ChunkingConfig\<close> (section 3): a positive
  size, an overlap in \<open>[0, chunk_size)\<close>, and a non-empty separator list for the custom
  strategy.\<close>

definition valid_config :: "ChunkingConfig \<Rightarrow> bool" where
  "valid_config cfg =
     (0 < chunk_size cfg \<and> 0 \<le> chunk_overlap cfg \<and> chunk_overlap cfg < chunk_size cfg \<and>
      (strategy cfg = Custom \<longrightarrow> custom_separators cfg \<noteq> []))"

text \<open>Modelled from the spec: the ordered candidate separators of a strategy (section
  4.1): the caller's list verbatim for custom, \<^verbatim>\<open>["\n\n", "\n"]\<close> for paragraph, and the
  table of the environment for the strategies whose lists the specification only
  describes.\<close>

definition separators_for :: "'h chunk_env \<Rightarrow> ChunkingConfig \<Rightarrow> string list" where
  "separators_for env cfg =
     (case strategy cfg of
        Custom \<Rightarrow> custom_separators cfg
      | Paragraph \<Rightarrow> [[CHR 0x0A, CHR 0x0A], [CHR 0x0A]]
      | s \<Rightarrow> separator_table env s)"

text \<open>Modelled from the spec: the size of a text in the unit of the strategy (section
  4.1): characters for \<open>Character\<close>, tokens otherwise.\<close>

definition unit_size :: "'h chunk_env \<Rightarrow> ChunkingConfig \<Rightarrow> string \<Rightarrow> nat" where
  "unit_size env cfg s =
     (if strategy cfg = Character then length s else tokens env (strategy cfg) s)"

text \<open>Modelled from the spec: the overlap a segment hands to its successor: the last
  \<open>chunk_overlap\<close> characters or tokens of the segment (section 4.1).\<close>

definition overlap_tail :: "'h chunk_env \<Rightarrow> ChunkingConfig \<Rightarrow> string \<Rightarrow> string" where
  "overlap_tail env cfg s =
     (if strategy cfg = Character then drop (length s - nat (chunk_overlap cfg)) s
      else last_tokens env (strategy cfg) (nat (chunk_overlap cfg)) s)"

text \<open>Modelled from the spec: splitting a text on one separator (section 4.1). The
  separator stays at the end of the piece before it, as no content may be lost (section
  8); \<open>acc\<close> is the piece being read. An empty separator never matches.\<close>

function split_on :: "string \<Rightarrow> string \<Rightarrow> string \<Rightarrow> string list" where
  "split_on sep acc [] = (if acc = [] then [] else [acc])"
| "split_on sep acc (c # cs) =
     (if sep \<noteq> [] \<and> take (length sep) (c # cs) = sep
      then (acc @ sep) # split_on sep [] (drop (length sep) (c # cs))
      else split_on sep (acc @ [c]) cs)"
  by pat_completeness auto
termination
  by (relation "measure (\<lambda>(sep, acc, s). length s)") auto

text \<open>Modelled from the spec: hard windowing at \<open>chunk_size\<close> boundaries, the fall-back when
  no separator is left (section 4.1). It is also used to cut a segment list into the
  batches of a worker.\<close>

function windows :: "nat \<Rightarrow> 'a list \<Rightarrow> 'a list list" where
  "windows n s =
     (if s = [] then []
      else if n = 0 then [s]
      else take n s # windows n (drop n s))"
  by pat_completeness auto
termination
  by (relation "measure (\<lambda>(n, s). length s)") auto

declare windows.simps [simp del]

text \<open>Modelled from the spec: the recursive split (section 4.1): split on the first
  separator, and split every piece that still exceeds \<open>chunk_size\<close> on the separators
  that follow; \<open>sz\<close> measures a text, \<open>n\<close> is the chunk size.\<close>

fun split_rec :: "(string \<Rightarrow> nat) \<Rightarrow> nat \<Rightarrow> string list \<Rightarrow> string \<Rightarrow> string list" where
  "split_rec sz n [] s = windows n s"
| "split_rec sz n (sep # seps) s =
     concat (map (\<lambda>p. if sz p \<le> n then [p] else split_rec sz n seps p) (split_on sep [] s))"

text \<open>Modelled from the spec: merging adjacent pieces as long as the merged piece does not
  exceed \<open>chunk_size\<close> (section 4.1); \<open>cur\<close> is the piece being built.\<close>

fun merge_pieces :: "(string \<Rightarrow> nat) \<Rightarrow> nat \<Rightarrow> string \<Rightarrow> string list \<Rightarrow> string list" where
  "merge_pieces sz n cur [] = (if cur = [] then [] else [cur])"
| "merge_pieces sz n cur (p # ps) =
     (if cur = [] then merge_pieces sz n p ps
      else if sz (cur @ p) \<le> n then merge_pieces sz n (cur @ p) ps
      else cur # merge_pieces sz n p ps)"

text \<open>Modelled from the spec: the overlapping windows (section 4.1): every segment after
  the first starts with the overlap of the segment before it, followed by its own
  piece.\<close>

fun with_overlap :: "(string \<Rightarrow> string) \<Rightarrow> string \<Rightarrow> string list \<Rightarrow> string list" where
  "with_overlap tail prev [] = []"
| "with_overlap tail prev (c # cs) = (tail prev @ c) # with_overlap tail (tail prev @ c) cs"

text \<open>Modelled from the spec: the segment texts from the merged pieces; the first one has
  no predecessor and no overlap.\<close>

definition emit_segments :: "(string \<Rightarrow> string) \<Rightarrow> string list \<Rightarrow> string list" where
  "emit_segments tail cores = (case cores of [] \<Rightarrow> [] | c # cs \<Rightarrow> c # with_overlap tail c cs)"

text \<open>Modelled from the spec: the texts of the segments of a document (section 4.1): none
  for the empty document; the document itself when it does not exceed \<open>chunk_size\<close>;
  split, merged and overlapped otherwise.\<close>

definition chunk_texts :: "'h chunk_env \<Rightarrow> ChunkingConfig \<Rightarrow> string \<Rightarrow> string list" where
  "chunk_texts env cfg doc =
     (if doc = [] then []
      else
        let n = nat (chunk_size cfg);
            sz = unit_size env cfg;
            pieces = (if sz doc \<le> n then [doc] else split_rec sz n (separators_for env cfg) doc)
        in emit_segments (overlap_tail env cfg) (merge_pieces sz n [] pieces))"

text \<open>Modelled from the spec: the segments of the texts, numbered from \<open>k\<close> in document
  order, with token count and content hash (section 3).\<close>

fun number_segments :: "'h chunk_env \<Rightarrow> ChunkingConfig \<Rightarrow> nat \<Rightarrow> string list \<Rightarrow> 'h segment list" where
  "number_segments env cfg k [] = []"
| "number_segments env cfg k (t # ts) =
     \<lparr>position = k, content = t, token_count = tokens env (strategy cfg) t,
      content_hash = hash env t\<rparr> # number_segments env cfg (Suc k) ts"

text \<open>Modelled from the spec: the Chunker's operation \<^verbatim>\<open>Chunk(content, config)\<close> (section
  4.1): \<open>ConfigError\<close> when the configuration breaks an invariant, before the content is
  looked at; the ordered segments otherwise.\<close>

definition Chunk :: "'h chunk_env \<Rightarrow> string \<Rightarrow> ChunkingConfig \<Rightarrow> chunk_error + 'h segment list" where
  "Chunk env doc cfg =
     (if \<not> valid_config cfg then Inl ConfigError
      else Inr (number_segments env cfg 0 (chunk_texts env cfg doc)))"

text \<open>Modelled from the spec: removing the overlaps (section 8): of every segment after
  the first, the part that is the overlap of its predecessor \<open>prev\<close> is dropped.\<close>

fun strip_overlaps :: "(string \<Rightarrow> string) \<Rightarrow> string \<Rightarrow> string list \<Rightarrow> string" where
  "strip_overlaps tail prev [] = []"
| "strip_overlaps tail prev (s # ss) = drop (length (tail prev)) s @ strip_overlaps tail s ss"

text \<open>Modelled from the spec: the concatenation of the segments with their overlaps
  removed (section 8).\<close>

definition reconstruct :: "'h chunk_env \<Rightarrow> ChunkingConfig \<Rightarrow> 'h segment list \<Rightarrow> string" where
  "reconstruct env cfg segs =
     (case map content segs of
        [] \<Rightarrow> []
      | s # ss \<Rightarrow> s @ strip_overlaps (overlap_tail env cfg) s ss)"

text \<open>An environment for concrete runs: sentence-like separators for the built-in
  strategies, one token per character, the length as hash.\<close>

definition example_env :: "nat chunk_env" where
  "example_env =
     \<lparr>separator_table = (\<lambda>s. [''. '', '' '']), tokens = (\<lambda>s t. length t),
      last_tokens = (\<lambda>s k t. drop (length t - k) t), hash = length\<rparr>"

definition example_config :: ChunkingConfig where
  "example_config =
     \<lparr>strategy = Sentence, chunk_size = 16, chunk_overlap = 3, custom_separators = []\<rparr>"

section \<open>Fingerprint Cache\<close>

text \<open>Modelled from the spec: the store of the Fingerprint Cache (section 4.2), whose
  implementation is missing: the entries by key. The operations of all callers act on
  this one store, one at a time (the serialisation section 5 asks for); entries never
  expire. The outage of the store behind the cache is not part of this model.\<close>

type_synonym ('k, 'v) cache = "'k \<Rightarrow> 'v option"



text \<open>Modelled from the spec: \<^verbatim>\<open>Invalidate(predicate)\<close>, the explicit cache clear (section
  4.2).\<close>

definition Invalidate :: "('k, 'v) cache \<Rightarrow> ('k \<Rightarrow> bool) \<Rightarrow> ('k, 'v) cache" where
  "Invalidate c p = (\<lambda>k. if p k then None else c k)"


section \<open>Task Registry\<close>

text \<open>Modelled from the spec: the kinds of a Task (section 3); the task manager is
  missing from the sources.\<close>

datatype task_kind = Ingest | Rechunk_all | Rebuild_index

text \<open>Modelled from the spec: the states of the task state machine (section 3).\<close>

datatype status = Pending | Received | Running | Progress | Completed | Failed | Cancelled | Rejected

text \<open>Modelled from the spec: \<^verbatim>\<open>Task\<close> (section 3). The three timestamps are left out; no
  operation below reads them.\<close>

record task =
  task_id :: nat
  kind :: task_kind
  knowledge_base_id :: string
  status :: status
  progress_percent :: nat
  error :: "string option"
  cancel_requested :: bool
  children :: "nat list"

text \<open>Modelled from the spec: the terminal states (section 3).\<close>

fun terminal :: "status \<Rightarrow> bool" where
  "terminal Completed = True"
| "terminal Failed = True"
| "terminal Cancelled = True"
| "terminal Rejected = True"
| "terminal s = False"

text \<open>Modelled from the spec: the errors of the registry (sections 4.3 and 7). The
  specification names no error for a call that the state machine does not allow on a
  task that is still live; the model refuses such a call with \<open>InvalidTransitionError\<close>
  and leaves the task as it is.\<close>

datatype registry_error = NotFoundError | AlreadyTerminalError | InvalidTransitionError

text \<open>Modelled from the spec: the refusal of a call the state machine does not allow.\<close>

definition refuse :: "task \<Rightarrow> registry_error + task" where
  "refuse t = Inl (if terminal (status t) then AlreadyTerminalError else InvalidTransitionError)"

text \<open>Modelled from the spec: the arrow \<open>pending \<rightarrow> received\<close> (section 3): a worker takes
  the job from the queue.\<close>

definition mark_received :: "task \<Rightarrow> registry_error + task" where
  "mark_received t = (if status t = Pending then Inr (t\<lparr>status := Received\<rparr>) else refuse t)"

text \<open>Modelled from the spec: the arrows \<open>received \<rightarrow> running\<close> and \<open>progress \<rightarrow> running\<close>
  (section 3).\<close>

definition mark_running :: "task \<Rightarrow> registry_error + task" where
  "mark_running t =
     (if status t = Received \<or> status t = Progress then Inr (t\<lparr>status := Running\<rparr>)
      else refuse t)"

text \<open>Modelled from the spec: \<^verbatim>\<open>UpdateProgress\<close> on one task (section 4.3): the arrow
  \<open>running \<rightarrow> progress\<close>, and a new percentage while in \<open>progress\<close>.\<close>

definition update_progress :: "task \<Rightarrow> nat \<Rightarrow> registry_error + task" where
  "update_progress t percent =
     (if status t = Running \<or> status t = Progress
      then Inr (t\<lparr>status := Progress, progress_percent := min percent 100\<rparr>)
      else refuse t)"

text \<open>Modelled from the spec: which terminal state a live task may take (sections 3 and
  4.4): \<open>completed\<close> and \<open>failed\<close> end a task that runs; \<open>cancelled\<close> needs the
  cancellation flag, which the worker reads at its checkpoints; \<open>rejected\<close> ends a task
  before its work starts.\<close>

fun may_end_as :: "task \<Rightarrow> status \<Rightarrow> bool" where
  "may_end_as t Completed = (status t = Running \<or> status t = Progress)"
| "may_end_as t Failed = (status t = Running \<or> status t = Progress)"
| "may_end_as t Cancelled = cancel_requested t"
| "may_end_as t Rejected = (status t = Pending \<or> status t = Received)"
| "may_end_as t s = False"

text \<open>Modelled from the spec: \<^verbatim>\<open>MarkTerminal\<close> on one task (section 4.3); a completed task
  is at 100 percent (section 8).\<close>

definition mark_terminal :: "task \<Rightarrow> status \<Rightarrow> string option \<Rightarrow> registry_error + task" where
  "mark_terminal t s e =
     (if terminal (status t) then Inl AlreadyTerminalError
      else if may_end_as t s
      then Inr (t\<lparr>status := s, error := e,
                 progress_percent := (if s = Completed then 100 else progress_percent t)\<rparr>)
      else Inl InvalidTransitionError)"

text \<open>Modelled from the spec: \<^verbatim>\<open>RequestCancel\<close> on one task (section 4.3): it sets the
  flag and fails on a terminal task.\<close>

definition request_cancel :: "task \<Rightarrow> registry_error + task" where
  "request_cancel t =
     (if terminal (status t) then Inl AlreadyTerminalError
      else Inr (t\<lparr>cancel_requested := True\<rparr>))"

text \<open>Modelled from the spec: the registry (section 4.3): the tasks in the order of their
  creation; the id of a task is its index.\<close>

type_synonym registry = "task list"

text \<open>Modelled from the spec: finding a task by its id.\<close>

definition lookup :: "registry \<Rightarrow> nat \<Rightarrow> task option" where
  "lookup reg i = (if i < length reg then Some (reg ! i) else None)"

text \<open>Modelled from the spec: \<^verbatim>\<open>Create(kind, owner)\<close> (section 4.3): a new pending task.\<close>

definition Create :: "registry \<Rightarrow> task_kind \<Rightarrow> string \<Rightarrow> registry \<times> task" where
  "Create reg k owner =
     (let t = \<lparr>task_id = length reg, kind = k, knowledge_base_id = owner, status = Pending,
                progress_percent = 0, error = None, cancel_requested = False, children = []\<rparr>
      in (reg @ [t], t))"














text \<open>Modelled from the spec: two registries with the same tasks in the same states.\<close>

definition statuses_kept :: "registry \<Rightarrow> registry \<Rightarrow> bool" where
  "statuses_kept reg reg' = (length reg' = length reg \<and> map status reg' = map status reg)"

section \<open>Fan-out jobs\<close>





section \<open>Ingestion worker\<close>

text \<open>Modelled from the spec: the state of one ingestion job (sections 4.4 and 5), the
  worker pool being missing from the sources: the job's task, the segment batches not
  yet written, the segments staged in the vector store, and whether the document is
  marked ready.\<close>

record 'h ingest_state =
  i_task :: task
  i_todo :: "'h segment list list"
  i_staged :: "'h segment list"
  i_ready :: bool

text \<open>Modelled from the spec: the task after a registry call; a refused call leaves it as
  it was.\<close>

definition keep :: "task \<Rightarrow> registry_error + task \<Rightarrow> task" where
  "keep t r = (case r of Inl e \<Rightarrow> t | Inr t' \<Rightarrow> t')"

text \<open>Modelled from the spec: embedding the segments of a batch (section 4.4, step d);
  \<open>embed_error\<close> gives the error with which the embedding adapter ends on a text once its
  retries are used up, if any (section 7).\<close>

fun first_error :: "(string \<Rightarrow> string option) \<Rightarrow> 'h segment list \<Rightarrow> string option" where
  "first_error embed_error [] = None"
| "first_error embed_error (g # gs) =
     (case embed_error (content g) of
        Some e \<Rightarrow> Some e
      | None \<Rightarrow> first_error embed_error gs)"

text \<open>Modelled from the spec: the progress after \<open>n\<close> of \<open>m\<close> segments (section 4.4, step
  f).\<close>

definition percent_done :: "nat \<Rightarrow> nat \<Rightarrow> nat" where
  "percent_done n m = (if m = 0 then 100 else (n * 100) div m)"

text \<open>Modelled from the spec: the work between two checkpoints (section 4.4, steps d to
  g): with no batch left the task completes and the document is marked ready (section
  5); otherwise the next batch is embedded and staged in position order and the
  progress reported, or the task fails with the adapter's error.\<close>

definition work_batch :: "(string \<Rightarrow> string option) \<Rightarrow> 'h ingest_state \<Rightarrow> 'h ingest_state" where
  "work_batch embed_error s =
     (let t = i_task s in
      case i_todo s of
        [] \<Rightarrow> s\<lparr>i_task := keep t (mark_terminal t Completed None), i_ready := True\<rparr>
      | b # bs \<Rightarrow>
          (case first_error embed_error b of
             Some e \<Rightarrow> s\<lparr>i_task := keep t (mark_terminal t Failed (Some e))\<rparr>
           | None \<Rightarrow>
               s\<lparr>i_task := keep t (update_progress t
                     (percent_done (length (i_staged s) + length b)
                        (length (i_staged s) + length (concat (b # bs))))),
                 i_staged := i_staged s @ b,
                 i_todo := bs\<rparr>))"

text \<open>Modelled from the spec: one step of the worker on its job (section 4.4): it takes
  the job from the queue; before starting it checks the cancellation flag (step a) and
  cancels without any work, else it chunks the document (steps b and c; a cache hit is
  by the invariant of section 3 the same as recomputing, so the cache is not consulted
  here), a configuration error rejecting the job; then it works batch by batch and
  checks the flag between batches (step f).\<close>

definition worker_step ::
  "'h chunk_env \<Rightarrow> (string \<Rightarrow> string option) \<Rightarrow> nat \<Rightarrow> string \<Rightarrow> ChunkingConfig \<Rightarrow>
   'h ingest_state \<Rightarrow> 'h ingest_state" where
  "worker_step env embed_error batch doc cfg s =
     (let t = i_task s in
      case status t of
        Pending \<Rightarrow> s\<lparr>i_task := keep t (mark_received t)\<rparr>
      | Received \<Rightarrow>
          if cancel_requested t then s\<lparr>i_task := keep t (mark_terminal t Cancelled None)\<rparr>
          else (case Chunk env doc cfg of
                  Inl e \<Rightarrow> s\<lparr>i_task := keep t (mark_terminal t Rejected (Some ''ConfigError''))\<rparr>
                | Inr segs \<Rightarrow> s\<lparr>i_task := keep t (mark_running t), i_todo := windows batch segs\<rparr>)
      | Running \<Rightarrow> work_batch embed_error s
      | Progress \<Rightarrow>
          if cancel_requested t \<and> i_todo s \<noteq> []
          then s\<lparr>i_task := keep t (mark_terminal t Cancelled None)\<rparr>
          else work_batch embed_error s
      | _ \<Rightarrow> s)"

text \<open>Modelled from the spec: what happens to a job: a step of its worker, or a
  cancellation request from a caller (section 4.3).\<close>

datatype ingest_event = Worker_step | Cancel_request

text \<open>Modelled from the spec: the job after one event.\<close>

fun ingest_event_step ::
  "'h chunk_env \<Rightarrow> (string \<Rightarrow> string option) \<Rightarrow> nat \<Rightarrow> string \<Rightarrow> ChunkingConfig \<Rightarrow>
   'h ingest_state \<Rightarrow> ingest_event \<Rightarrow> 'h ingest_state" where
  "ingest_event_step env embed_error batch doc cfg s Worker_step =
     worker_step env embed_error batch doc cfg s"
| "ingest_event_step env embed_error batch doc cfg s Cancel_request =
     s\<lparr>i_task := keep (i_task s) (request_cancel (i_task s))\<rparr>"

text \<open>Modelled from the spec: the job after a sequence of events, in any interleaving of
  worker steps and cancellation requests.\<close>

definition ingest_run ::
  "'h chunk_env \<Rightarrow> (string \<Rightarrow> string option) \<Rightarrow> nat \<Rightarrow> string \<Rightarrow> ChunkingConfig \<Rightarrow>
   ingest_event list \<Rightarrow> 'h ingest_state \<Rightarrow> 'h ingest_state" where
  "ingest_run env embed_error batch doc cfg evs s =
     foldl (ingest_event_step env embed_error batch doc cfg) s evs"

text \<open>Modelled from the spec: a job as \<^verbatim>\<open>Submit\<close> leaves it (section 4.4): a pending task,
  nothing written.\<close>

definition submitted :: "registry \<Rightarrow> string \<Rightarrow> 'h ingest_state" where
  "submitted reg owner =
     \<lparr>i_task = snd (Create reg Ingest owner), i_todo = [], i_staged = [], i_ready = False\<rparr>"



text \<open>Modelled from the spec: a job on which no work has been done (section 7): nothing
  staged, no batch planned, the document not ready, the task not started or ended
  without running.\<close>

definition idle :: "'h ingest_state \<Rightarrow> bool" where
  "idle s =
     (i_staged s = [] \<and> i_todo s = [] \<and> \<not> i_ready s \<and>
      (status (i_task s) = Pending \<or> status (i_task s) = Received \<or>
       status (i_task s) = Rejected \<or> status (i_task s) = Cancelled))"

section \<open>Properties of the upload filter\<close>

lemma uploaded_append: "uploaded (xs @ ys) = uploaded xs @ uploaded ys"
  by (induction xs rule: uploaded.induct) simp_all

lemma uploaded_uploadSingleFile: "uploaded (uploadSingleFile kb ok f) = [f]"
  by (simp add: uploadSingleFile_def)

lemma uploaded_upload_loop: "uploaded (upload_loop kb resolves k fs) = fs"
  by (induction fs arbitrary: k) (simp_all add: uploaded_append uploaded_uploadSingleFile)

lemma uploaded_processFiles:
  "uploaded (processFiles kb resolves files) = filter (\<lambda>f. file_type f \<in> set supportedTypes) files"
  by (simp add: processFiles_def Let_def uploaded_append uploaded_upload_loop)

text \<open>
  C9: for every list of files given to \<^verbatim>\<open>processFiles\<close>, the files handed to
  \<^verbatim>\<open>uploadDocument\<close> are exactly the files of the list whose MIME type is one of the
  seven supported types, in the order of the list; a file of any other type never reaches
  an upload call, and when no file passes the filter nothing is uploaded (the function
  returns after at most the alert).
\<close>

theorem processFiles_uploads_supported_only:
  "uploaded (processFiles kb resolves files) =
     filter (\<lambda>f. file_type f \<in> set supportedTypes) files
   \<and> (\<forall>f \<in> set (uploaded (processFiles kb resolves files)).
         f \<in> set files \<and>
         file_type f \<in> {''application/pdf'', ''text/plain'', ''text/markdown'',
           ''application/vnd.openxmlformats-officedocument.wordprocessingml.document'',
           ''application/msword'', ''text/csv'', ''application/json''})
   \<and> ((\<forall>f \<in> set files. file_type f \<notin> set supportedTypes) \<longrightarrow>
         uploaded (processFiles kb resolves files) = [] \<and>
         (processFiles kb resolves files = [] \<or> processFiles kb resolves files = [Alert]))"
proof -
  have set7: "set supportedTypes = {''application/pdf'', ''text/plain'', ''text/markdown'',
           ''application/vnd.openxmlformats-officedocument.wordprocessingml.document'',
           ''application/msword'', ''text/csv'', ''application/json''}"
    by (simp add: supportedTypes_def)
  have a: "uploaded (processFiles kb resolves files) =
     filter (\<lambda>f. file_type f \<in> set supportedTypes) files"
    by (rule uploaded_processFiles)
  have b: "\<forall>f \<in> set (uploaded (processFiles kb resolves files)).
         f \<in> set files \<and> file_type f \<in> set supportedTypes"
    unfolding a by simp
  have c: "(\<forall>f \<in> set files. file_type f \<notin> set supportedTypes) \<longrightarrow>
         uploaded (processFiles kb resolves files) = [] \<and>
         (processFiles kb resolves files = [] \<or> processFiles kb resolves files = [Alert])"
  proof
    assume h: "\<forall>f \<in> set files. file_type f \<notin> set supportedTypes"
    then have e: "filter (\<lambda>f. file_type f \<in> set supportedTypes) files = []"
      by (simp add: filter_empty_conv)
    show "uploaded (processFiles kb resolves files) = [] \<and>
         (processFiles kb resolves files = [] \<or> processFiles kb resolves files = [Alert])"
      using e by (simp add: a) (simp add: processFiles_def Let_def e)
  qed
  show ?thesis using a b c unfolding set7 by blast
qed

theorem processFiles_uploads_supported_only_witness:
  "uploaded (processFiles ''kb1'' (\<lambda>k. True)
      [\<lparr>file_name = ''a.pdf'', file_type = ''application/pdf''\<rparr>,
       \<lparr>file_name = ''b.png'', file_type = ''image/png''\<rparr>]) =
     [\<lparr>file_name = ''a.pdf'', file_type = ''application/pdf''\<rparr>]
   \<and> uploaded (processFiles ''kb1'' (\<lambda>k. True)
      [\<lparr>file_name = ''b.png'', file_type = ''image/png''\<rparr>]) = []"
proof -
  have h: "\<forall>f \<in> set [\<lparr>file_name = ''b.png'', file_type = ''image/png''\<rparr>].
             file_type f \<notin> set supportedTypes"
    by (simp add: supportedTypes_def)
  have a: "uploaded (processFiles ''kb1'' (\<lambda>k. True)
      [\<lparr>file_name = ''b.png'', file_type = ''image/png''\<rparr>]) = []"
    using processFiles_uploads_supported_only
      [of "''kb1''" "\<lambda>k. True" "[\<lparr>file_name = ''b.png'', file_type = ''image/png''\<rparr>]"] h
    by blast
  have b: "uploaded (processFiles ''kb1'' (\<lambda>k. True)
      [\<lparr>file_name = ''a.pdf'', file_type = ''application/pdf''\<rparr>,
       \<lparr>file_name = ''b.png'', file_type = ''image/png''\<rparr>]) =
     filter (\<lambda>f. file_type f \<in> set supportedTypes)
      [\<lparr>file_name = ''a.pdf'', file_type = ''application/pdf''\<rparr>,
       \<lparr>file_name = ''b.png'', file_type = ''image/png''\<rparr>]"
    using processFiles_uploads_supported_only
      [of "''kb1''" "\<lambda>k. True" "[\<lparr>file_name = ''a.pdf'', file_type = ''application/pdf''\<rparr>,
       \<lparr>file_name = ''b.png'', file_type = ''image/png''\<rparr>]"]
    by blast
  show ?thesis using a b by (simp add: supportedTypes_def)
qed

section \<open>Properties of the stream handler\<close>

lemma process_lines_append:
  "process_lines parse hs (xs @ ys) =
     (case process_lines parse hs xs of
        (cs, True) \<Rightarrow> (cs, True)
      | (cs, False) \<Rightarrow> (case process_lines parse hs ys of (cs', stop) \<Rightarrow> (cs @ cs', stop)))"
  by (induction xs) (auto split: prod.splits bool.splits)

lemma read_loop_delivered:
  "read_loop parse hs buffer reads =
     (case process_lines parse hs (delivered buffer reads) of
        (cs, True) \<Rightarrow> cs @ [ReleaseLock]
      | (cs, False) \<Rightarrow> cs @ ending reads)"
proof (induction reads arbitrary: buffer)
  case Nil
  show ?case by simp
next
  case (Cons r rs)
  show ?case
  proof (cases r)
    case (Value v)
    show ?thesis
      by (simp add: Value Cons.IH process_lines_append split: prod.splits bool.splits)
  qed simp_all
qed

lemma handle_line_stop: "snd (handle_line parse hs line) = fatal_line parse line"
  by (auto simp: handle_line_def fatal_line_def split: option.splits json.splits)

lemma handle_line_quiet:
  "OnCompleted \<notin> set (fst (handle_line parse hs line)) \<and>
   ReleaseLock \<notin> set (fst (handle_line parse hs line))"
  by (auto simp: handle_line_def split: option.splits json.splits)

lemma handle_line_no_error:
  "\<not> fatal_line parse line \<Longrightarrow> OnError e \<notin> set (fst (handle_line parse hs line))"
  by (auto simp: handle_line_def fatal_line_def split: option.splits json.splits if_splits)

lemma process_lines_benign:
  "\<forall>x \<in> set xs. \<not> fatal_line parse x \<Longrightarrow>
   snd (process_lines parse hs xs) = False \<and>
   (\<forall>e. OnError e \<notin> set (fst (process_lines parse hs xs)))"
proof (induction xs)
  case Nil
  show ?case by simp
next
  case (Cons x xs)
  have nf: "\<not> fatal_line parse x" using Cons.prems by simp
  obtain cs where h: "handle_line parse hs x = (cs, False)"
    using handle_line_stop[of parse hs x] nf by (cases "handle_line parse hs x") auto
  have ne: "\<forall>e. OnError e \<notin> set cs"
    using handle_line_no_error[OF nf, of _ hs] h by simp
  show ?case using Cons h ne by (auto split: prod.splits)
qed

lemma process_lines_quiet:
  "OnCompleted \<notin> set (fst (process_lines parse hs xs)) \<and>
   ReleaseLock \<notin> set (fst (process_lines parse hs xs))"
proof (induction xs)
  case Nil
  show ?case by simp
next
  case (Cons x xs)
  show ?case using Cons handle_line_quiet[of parse hs x]
    by (auto split: prod.splits bool.splits)
qed

lemma process_lines_stop_iff:
  "snd (process_lines parse hs xs) = (\<exists>x \<in> set xs. fatal_line parse x)"
proof (induction xs)
  case Nil
  show ?case by simp
next
  case (Cons x xs)
  show ?case using Cons handle_line_stop[of parse hs x]
    by (auto split: prod.splits bool.splits)
qed

lemma process_lines_first_fatal:
  assumes "\<forall>x \<in> set pre. \<not> fatal_line parse x"
    and "handle_line parse hs line = (cs, True)"
  shows "process_lines parse hs (pre @ line # post) = (fst (process_lines parse hs pre) @ cs, True)"
  using process_lines_benign[OF assms(1), of hs] assms(2)
  by (cases "process_lines parse hs pre") (simp add: process_lines_append)

lemma ending_completed:
  "(OnCompleted \<in> set (ending reads)) = (\<forall>r \<in> set reads. \<exists>t. r = Value t)"
  by (induction reads rule: ending.induct) auto

lemma ending_error_xor:
  "OnCompleted \<in> set (ending reads) \<Longrightarrow> OnError e \<notin> set (ending reads)"
  by (induction reads rule: ending.induct) (auto split: if_splits)


text \<open>
  C10: for every stream consumed by \<^verbatim>\<open>handleStreamResponse\<close>: when the first line that
  ends the processing is a \<^verbatim>\<open>data: \<close> event of type \<^verbatim>\<open>error\<close>, \<^verbatim>\<open>onError\<close> is called with
  that event's \<^verbatim>\<open>error\<close>, nothing but the release of the reader follows, and
  \<^verbatim>\<open>onCompleted\<close> is never called; when it is a \<^verbatim>\<open>data: \<close> line that does not parse as
  JSON, the same holds with the parse-error message; and \<^verbatim>\<open>onCompleted\<close> is called
  exactly when every read delivered a chunk and no line handed over was such a line, in
  which case \<^verbatim>\<open>onError\<close> is not called at all.
\<close>

theorem handleStreamResponse_error_stops:
  assumes run: "handleStreamResponse parse hs (Some reads) = Inr tr"
  shows
    "(\<forall>pre line post j.
        delivered [] reads = pre @ line # post \<and> (\<forall>x \<in> set pre. \<not> fatal_line parse x) \<and>
        startsWith line ''data: '' \<and> parse (drop 6 line) = Some j \<and>
        field j ''type'' = Some (JStr ''error'') \<longrightarrow>
        tr = fst (process_lines parse hs pre) @ [OnError (field j ''error''), ReleaseLock] \<and>
        OnCompleted \<notin> set tr)
     \<and> (\<forall>pre line post.
        delivered [] reads = pre @ line # post \<and> (\<forall>x \<in> set pre. \<not> fatal_line parse x) \<and>
        startsWith line ''data: '' \<and> parse (drop 6 line) = None \<longrightarrow>
        tr = fst (process_lines parse hs pre) @
               [OnError (Some (JStr ''Error parsing stream data'')), ReleaseLock] \<and>
        OnCompleted \<notin> set tr)
     \<and> ((OnCompleted \<in> set tr) =
          ((\<forall>r \<in> set reads. \<exists>t. r = Value t) \<and>
           (\<forall>line \<in> set (delivered [] reads). \<not> fatal_line parse line)))
     \<and> (OnCompleted \<in> set tr \<longrightarrow> (\<forall>e. OnError e \<notin> set tr))"
proof -
  have tr: "tr = read_loop parse hs [] reads"
    using run by (simp add: handleStreamResponse_def)
  have shape: "tr = (case process_lines parse hs (delivered [] reads) of
        (cs, True) \<Rightarrow> cs @ [ReleaseLock]
      | (cs, False) \<Rightarrow> cs @ ending reads)"
    unfolding tr by (rule read_loop_delivered)
  have stopped: "tr = fst (process_lines parse hs pre) @ cs @ [ReleaseLock]" "OnCompleted \<notin> set tr"
    if d: "delivered [] reads = pre @ line # post"
      and b: "\<forall>x \<in> set pre. \<not> fatal_line parse x"
      and h: "handle_line parse hs line = (cs, True)"
    for pre line post cs
  proof -
    have p: "process_lines parse hs (delivered [] reads) = (fst (process_lines parse hs pre) @ cs, True)"
      unfolding d by (rule process_lines_first_fatal[OF b h])
    have e: "tr = fst (process_lines parse hs pre) @ cs @ [ReleaseLock]"
      using shape p by simp
    have q: "OnCompleted \<notin> set (fst (process_lines parse hs pre) @ cs)"
      using process_lines_quiet[of parse hs "delivered [] reads"] p by simp
    show "tr = fst (process_lines parse hs pre) @ cs @ [ReleaseLock]" by (rule e)
    show "OnCompleted \<notin> set tr" using e q by simp
  qed
  have one: "tr = fst (process_lines parse hs pre) @ [OnError (field j ''error''), ReleaseLock] \<and>
        OnCompleted \<notin> set tr"
    if "delivered [] reads = pre @ line # post" and "\<forall>x \<in> set pre. \<not> fatal_line parse x"
      and s: "startsWith line ''data: ''" and pj: "parse (drop 6 line) = Some j"
      and ty: "field j ''type'' = Some (JStr ''error'')"
    for pre line post j
  proof -
    have "handle_line parse hs line = ([OnError (field j ''error'')], True)"
      using s pj ty by (cases j) (simp_all add: handle_line_def)
    from stopped[OF that(1) that(2) this] show ?thesis by simp
  qed
  have two: "tr = fst (process_lines parse hs pre) @
               [OnError (Some (JStr ''Error parsing stream data'')), ReleaseLock] \<and>
        OnCompleted \<notin> set tr"
    if "delivered [] reads = pre @ line # post" and "\<forall>x \<in> set pre. \<not> fatal_line parse x"
      and s: "startsWith line ''data: ''" and pj: "parse (drop 6 line) = None"
    for pre line post
  proof -
    have "handle_line parse hs line = ([OnError (Some (JStr ''Error parsing stream data''))], True)"
      using s pj by (simp add: handle_line_def)
    from stopped[OF that(1) that(2) this] show ?thesis by simp
  qed
  have three: "(OnCompleted \<in> set tr) =
          ((\<forall>r \<in> set reads. \<exists>t. r = Value t) \<and>
           (\<forall>line \<in> set (delivered [] reads). \<not> fatal_line parse line))"
  proof (cases "snd (process_lines parse hs (delivered [] reads))")
    case True
    then obtain cs where p: "process_lines parse hs (delivered [] reads) = (cs, True)"
      by (cases "process_lines parse hs (delivered [] reads)") auto
    have "OnCompleted \<notin> set tr"
      using shape p process_lines_quiet[of parse hs "delivered [] reads"] by simp
    moreover have "\<exists>x \<in> set (delivered [] reads). fatal_line parse x"
      using True process_lines_stop_iff[of parse hs "delivered [] reads"] by simp
    ultimately show ?thesis by blast
  next
    case False
    then obtain cs where p: "process_lines parse hs (delivered [] reads) = (cs, False)"
      by (cases "process_lines parse hs (delivered [] reads)") auto
    have "(OnCompleted \<in> set tr) = (OnCompleted \<in> set (ending reads))"
      using shape p process_lines_quiet[of parse hs "delivered [] reads"] by simp
    moreover have "\<forall>x \<in> set (delivered [] reads). \<not> fatal_line parse x"
      using False process_lines_stop_iff[of parse hs "delivered [] reads"] by simp
    ultimately show ?thesis by (simp add: ending_completed)
  qed
  have four: "\<forall>e. OnError e \<notin> set tr" if c: "OnCompleted \<in> set tr"
  proof -
    have nf: "\<forall>x \<in> set (delivered [] reads). \<not> fatal_line parse x" using c three by simp
    from process_lines_benign[OF nf, of hs]
    obtain cs where p: "process_lines parse hs (delivered [] reads) = (cs, False)"
      and ne: "\<forall>e. OnError e \<notin> set cs"
      by (cases "process_lines parse hs (delivered [] reads)") auto
    have e: "tr = cs @ ending reads" using shape p by simp
    have "OnCompleted \<in> set (ending reads)"
      using c e process_lines_quiet[of parse hs "delivered [] reads"] p by simp
    then have "\<forall>e. OnError e \<notin> set (ending reads)" using ending_error_xor by blast
    then show ?thesis using e ne by simp
  qed
  show ?thesis using one two three four by blast
qed

theorem handleStreamResponse_error_stops_witness:
  "handleStreamResponse example_parse True
     (Some [Value (''data: C'' @ [CHR 0x0A]),
            Value ([CHR 0x0A] @ ''data: E'' @ [CHR 0x0A, CHR 0x0A] @ ''data: C''),
            Value [CHR 0x0A, CHR 0x0A]]) =
     Inr [OnData (Some (JStr ''hi'')) False None None None,
          OnError (Some (JStr ''boom'')), ReleaseLock] \<and>
   handleStreamResponse example_parse True
     (Some [Value (''data: X'' @ [CHR 0x0A, CHR 0x0A] @ ''data: C'' @ [CHR 0x0A, CHR 0x0A])]) =
     Inr [OnError (Some (JStr ''Error parsing stream data'')), ReleaseLock] \<and>
   OnCompleted \<in> set (read_loop example_parse True []
     [Value (''data: C'' @ [CHR 0x0A, CHR 0x0A]), Value ''data: E''])"
proof -
  let ?reads = "[Value (''data: C'' @ [CHR 0x0A]),
                 Value ([CHR 0x0A] @ ''data: E'' @ [CHR 0x0A, CHR 0x0A] @ ''data: C''),
                 Value [CHR 0x0A, CHR 0x0A]]"
  let ?tr = "read_loop example_parse True [] ?reads"
  let ?j = "JObj [(''type'', JStr ''error''), (''error'', JStr ''boom'')]"
  have run: "handleStreamResponse example_parse True (Some ?reads) = Inr ?tr"
    by (simp add: handleStreamResponse_def)
  have d: "delivered [] ?reads = [''data: C''] @ ''data: E'' # [''data: C'']"
    by (simp add: pop_def)
  have b: "\<forall>x \<in> set [''data: C'']. \<not> fatal_line example_parse x"
    by (simp add: fatal_line_def example_parse_def startsWith_def)
  have s: "startsWith ''data: E'' ''data: ''"
    by (simp add: startsWith_def)
  have p: "example_parse (drop 6 ''data: E'') = Some ?j"
    by (simp add: example_parse_def)
  have t: "field ?j ''type'' = Some (JStr ''error'')"
    by simp
  have "?tr = fst (process_lines example_parse True [''data: C'']) @
                [OnError (field ?j ''error''), ReleaseLock]"
    using handleStreamResponse_error_stops[OF run] d b s p t by blast
  then have "?tr = [OnData (Some (JStr ''hi'')) False None None None,
                    OnError (Some (JStr ''boom'')), ReleaseLock]"
    by (simp add: handle_line_def example_parse_def startsWith_def)
  then have first: "handleStreamResponse example_parse True (Some ?reads) =
     Inr [OnData (Some (JStr ''hi'')) False None None None,
          OnError (Some (JStr ''boom'')), ReleaseLock]"
    using run by simp
  let ?reads2 = "[Value (''data: X'' @ [CHR 0x0A, CHR 0x0A] @ ''data: C'' @ [CHR 0x0A, CHR 0x0A])]"
  let ?tr2 = "read_loop example_parse True [] ?reads2"
  have run2: "handleStreamResponse example_parse True (Some ?reads2) = Inr ?tr2"
    by (simp add: handleStreamResponse_def)
  have d2: "delivered [] ?reads2 = [] @ ''data: X'' # [''data: C'']"
    by (simp add: pop_def)
  have b2: "\<forall>x \<in> set []. \<not> fatal_line example_parse x"
    by simp
  have s2: "startsWith ''data: X'' ''data: ''"
    by (simp add: startsWith_def)
  have p2: "example_parse (drop 6 ''data: X'') = None"
    by (simp add: example_parse_def)
  have "?tr2 = fst (process_lines example_parse True []) @
                [OnError (Some (JStr ''Error parsing stream data'')), ReleaseLock]"
    using handleStreamResponse_error_stops[OF run2] d2 b2 s2 p2 by blast
  then have second: "handleStreamResponse example_parse True (Some ?reads2) =
     Inr [OnError (Some (JStr ''Error parsing stream data'')), ReleaseLock]"
    using run2 by simp
  let ?reads3 = "[Value (''data: C'' @ [CHR 0x0A, CHR 0x0A]), Value ''data: E'']"
  let ?tr3 = "read_loop example_parse True [] ?reads3"
  have run3: "handleStreamResponse example_parse True (Some ?reads3) = Inr ?tr3"
    by (simp add: handleStreamResponse_def)
  have v3: "\<forall>r \<in> set ?reads3. \<exists>t. r = Value t"
    by simp
  have d3: "delivered [] ?reads3 = [''data: C'']"
    by (simp add: pop_def)
  have f3: "\<forall>line \<in> set (delivered [] ?reads3). \<not> fatal_line example_parse line"
    unfolding d3 by (simp add: fatal_line_def example_parse_def startsWith_def)
  have third: "OnCompleted \<in> set ?tr3"
    using handleStreamResponse_error_stops[OF run3] v3 f3 by blast
  show ?thesis using first second third by blast
qed

section \<open>Properties of the Chunker\<close>

lemma concat_split_on: "concat (split_on sep acc s) = acc @ s"
proof (induction sep acc s rule: split_on.induct)
  case (1 sep acc)
  show ?case by simp
next
  case (2 sep acc c cs)
  show ?case
  proof (cases "sep \<noteq> [] \<and> take (length sep) (c # cs) = sep")
    case True
    have "sep @ drop (length sep) (c # cs) = c # cs"
      using True append_take_drop_id[of "length sep" "c # cs"] by simp
    then show ?thesis using True 2 by simp
  next
    case False
    then show ?thesis using 2 by auto
  qed
qed

lemma concat_windows: "concat (windows n s) = s"
proof (induction n s rule: windows.induct)
  case (1 n s)
  show ?case
  proof (cases "s = [] \<or> n = 0")
    case True
    then show ?thesis by (auto simp: windows.simps[of n s])
  next
    case False
    then show ?thesis using 1 by (simp add: windows.simps[of n s])
  qed
qed

lemma concat_split_rec: "concat (split_rec sz n seps s) = s"
proof (induction seps arbitrary: s)
  case Nil
  show ?case by (simp add: concat_windows)
next
  case (Cons sep seps)
  have "concat (concat (map (\<lambda>p. if sz p \<le> n then [p] else split_rec sz n seps p) ps)) = concat ps"
    for ps
    by (induction ps) (simp_all add: Cons.IH)
  then show ?case by (simp add: concat_split_on)
qed

lemma concat_merge_pieces: "concat (merge_pieces sz n cur ps) = cur @ concat ps"
  by (induction ps arbitrary: cur) simp_all

lemma strip_with_overlap: "strip_overlaps tail prev (with_overlap tail prev cs) = concat cs"
  by (induction cs arbitrary: prev) simp_all

lemma content_number_segments: "map content (number_segments env cfg k ts) = ts"
  by (induction ts arbitrary: k) simp_all



lemma reconstruct_chunk_texts:
  "reconstruct env cfg (number_segments env cfg k (chunk_texts env cfg doc)) = doc"
proof (cases "doc = []")
  case True
  then show ?thesis by (simp add: reconstruct_def chunk_texts_def)
next
  case False
  define n where "n = nat (chunk_size cfg)"
  define sz where "sz = unit_size env cfg"
  define pieces where
    "pieces = (if sz doc \<le> n then [doc] else split_rec sz n (separators_for env cfg) doc)"
  define cores where "cores = merge_pieces sz n [] pieces"
  have p: "concat pieces = doc"
    by (simp add: pieces_def concat_split_rec)
  have c: "concat cores = doc"
    by (simp add: cores_def concat_merge_pieces p)
  have t: "chunk_texts env cfg doc = emit_segments (overlap_tail env cfg) cores"
    using False by (simp add: chunk_texts_def Let_def cores_def pieces_def sz_def n_def)
  show ?thesis
  proof (cases cores)
    case Nil
    then show ?thesis using c t by (simp add: reconstruct_def emit_segments_def)
  next
    case (Cons a as)
    then show ?thesis using c t
      by (simp add: reconstruct_def emit_segments_def content_number_segments strip_with_overlap)
  qed
qed


lemma valid_example_config: "valid_config example_config"
  by (simp add: valid_config_def example_config_def)

lemma Chunk_example:
  "Chunk example_env ''hello world. second one. third sentence here.'' example_config =
     Inr [\<lparr>position = 0, content = ''hello world. '', token_count = 13, content_hash = 13\<rparr>,
          \<lparr>position = 1, content = ''d. second one. '', token_count = 15, content_hash = 15\<rparr>,
          \<lparr>position = 2, content = ''e. third sentence '', token_count = 18, content_hash = 18\<rparr>,
          \<lparr>position = 3, content = ''ce here.'', token_count = 8, content_hash = 8\<rparr>]"
  by code_simp

lemma idle_step:
  assumes "Chunk env doc cfg = Inl ConfigError" and "idle s"
  shows "idle (ingest_event_step env embed_error batch doc cfg s ev)"
proof (cases ev)
  case Worker_step
  then show ?thesis using assms
    by (auto simp: idle_def worker_step_def Let_def keep_def mark_received_def mark_terminal_def)
next
  case Cancel_request
  then show ?thesis using assms
    by (auto simp: idle_def keep_def request_cancel_def)
qed

lemma idle_run:
  "Chunk env doc cfg = Inl ConfigError \<Longrightarrow> idle s \<Longrightarrow>
     idle (ingest_run env embed_error batch doc cfg evs s)"
proof (induction evs arbitrary: s)
  case Nil
  then show ?case by (simp add: ingest_run_def)
next
  case (Cons ev evs)
  from Cons.IH[OF Cons.prems(1) idle_step[OF Cons.prems]]
  show ?case by (simp add: ingest_run_def)
qed

lemma idle_submitted: "idle (submitted reg owner)"
  by (simp add: idle_def submitted_def Create_def Let_def)

text \<open>
  C2: for every strategy, \<^verbatim>\<open>Chunk\<close> fails with \<open>ConfigError\<close> whenever the configuration
  breaks an invariant: when the overlap is not strictly less than the size, when the
  strategy is custom and the separator list is empty, and for every other violation. The
  rejection comes before any work: whatever the document, and whatever the interleaving
  of worker steps and cancellation requests, a job with such a configuration never
  stages a segment and its task never runs. A valid configuration is never rejected.
\<close>

theorem Chunk_rejects_invalid_config:
  "(chunk_size cfg \<le> chunk_overlap cfg \<longrightarrow> Chunk env doc cfg = Inl ConfigError) \<and>
   (strategy cfg = Custom \<and> custom_separators cfg = [] \<longrightarrow> Chunk env doc cfg = Inl ConfigError) \<and>
   (\<not> valid_config cfg \<longrightarrow>
      Chunk env doc cfg = Inl ConfigError \<and>
      idle (ingest_run env embed_error batch doc cfg evs (submitted reg owner))) \<and>
   (valid_config cfg \<longrightarrow> (\<exists>segs. Chunk env doc cfg = Inr segs))"
proof -
  have a: "Chunk env doc cfg = Inl ConfigError" if "\<not> valid_config cfg"
    using that by (simp add: Chunk_def)
  have b: "\<not> valid_config cfg" if "chunk_size cfg \<le> chunk_overlap cfg"
    using that by (simp add: valid_config_def)
  have c: "\<not> valid_config cfg" if "strategy cfg = Custom \<and> custom_separators cfg = []"
    using that by (simp add: valid_config_def)
  have d: "idle (ingest_run env embed_error batch doc cfg evs (submitted reg owner))"
    if "\<not> valid_config cfg"
    using idle_run[OF a[OF that] idle_submitted] .
  have e: "\<exists>segs. Chunk env doc cfg = Inr segs" if "valid_config cfg"
    using that by (simp add: Chunk_def)
  show ?thesis using a b c d e by blast
qed

theorem Chunk_rejects_invalid_config_witness:
  "Chunk example_env ''abc''
     \<lparr>strategy = Token, chunk_size = 10, chunk_overlap = 10, custom_separators = []\<rparr> =
     Inl ConfigError \<and>
   Chunk example_env ''abc''
     \<lparr>strategy = Custom, chunk_size = 10, chunk_overlap = 2, custom_separators = []\<rparr> =
     Inl ConfigError \<and>
   status (i_task (ingest_run example_env (\<lambda>s. None) 2 ''abc''
     \<lparr>strategy = Token, chunk_size = 10, chunk_overlap = 10, custom_separators = []\<rparr>
     [Worker_step, Worker_step, Worker_step] (submitted [] ''kb''))) = Rejected"
proof -
  let ?a = "\<lparr>strategy = Token, chunk_size = 10, chunk_overlap = 10, custom_separators = []\<rparr>"
  let ?b = "\<lparr>strategy = Custom, chunk_size = 10, chunk_overlap = 2, custom_separators = []\<rparr>"
  have ha: "chunk_size ?a \<le> chunk_overlap ?a" by simp
  have hb: "strategy ?b = Custom \<and> custom_separators ?b = []" by simp
  have 1: "Chunk example_env ''abc'' ?a = Inl ConfigError"
    using Chunk_rejects_invalid_config[where cfg = ?a and env = example_env and doc = "''abc''"] ha
    by blast
  have 2: "Chunk example_env ''abc'' ?b = Inl ConfigError"
    using Chunk_rejects_invalid_config[where cfg = ?b and env = example_env and doc = "''abc''"] hb
    by blast
  have 3: "status (i_task (ingest_run example_env (\<lambda>s. None) 2 ''abc'' ?a
             [Worker_step, Worker_step, Worker_step] (submitted [] ''kb''))) = Rejected"
    by (simp add: ingest_run_def submitted_def Create_def Let_def worker_step_def keep_def
        mark_received_def mark_terminal_def 1)
  show ?thesis using 1 2 3 by simp
qed

text \<open>
  C3: for every document and every valid configuration, the segments \<^verbatim>\<open>Chunk\<close> returns,
  concatenated in order with the overlap at the head of every segment after the first
  removed, are the content of the document.
\<close>

theorem Chunk_round_trip:
  assumes "valid_config cfg"
  shows "\<exists>segs. Chunk env doc cfg = Inr segs \<and> reconstruct env cfg segs = doc"
  using assms by (simp add: Chunk_def reconstruct_chunk_texts)

theorem Chunk_round_trip_witness:
  "reconstruct example_env example_config
     [\<lparr>position = 0, content = ''hello world. '', token_count = 13, content_hash = 13\<rparr>,
      \<lparr>position = 1, content = ''d. second one. '', token_count = 15, content_hash = 15\<rparr>,
      \<lparr>position = 2, content = ''e. third sentence '', token_count = 18, content_hash = 18\<rparr>,
      \<lparr>position = 3, content = ''ce here.'', token_count = 8, content_hash = 8\<rparr>] =
   ''hello world. second one. third sentence here.''"
proof -
  obtain segs where
    c: "Chunk example_env ''hello world. second one. third sentence here.'' example_config = Inr segs"
    and r: "reconstruct example_env example_config segs =
              ''hello world. second one. third sentence here.''"
    using Chunk_round_trip[OF valid_example_config, of example_env
        "''hello world. second one. third sentence here.''"]
    by blast
  show ?thesis using c r unfolding Chunk_example by simp
qed

section \<open>Properties of the ingestion worker\<close>

















section \<open>Properties of the task state machine\<close>









lemma statuses_kept_flag:
  assumes "lookup reg i = Some t"
  shows "statuses_kept reg (reg[i := t\<lparr>cancel_requested := True\<rparr>])"
proof -
  have "i < length reg" and "reg ! i = t"
    using assms by (auto simp: lookup_def split: if_splits)
  then show ?thesis
    by (simp add: statuses_kept_def map_update list_update_same_conv)
qed

















section \<open>Properties of fan-out jobs\<close>




section \<open>Properties of the Fingerprint Cache\<close>





end
